theory Spec2Isabelle
  imports Main
begin

section \<open>Python values used by the client\<close>

text \<open>
  The client module \<^verbatim>\<open>scripts/cliente_github.py\<close> is embedded function by function.
  Python strings are \<open>string\<close>s, Python integers are \<open>int\<close>s, list positions and
  counters that never go below zero are \<open>nat\<close>s. Every \<^verbatim>\<open>raise\<close> of the module and
  every failing dictionary or list access is a value of the type \<open>error\<close>.

  The module raises \<^verbatim>\<open>RuntimeError\<close> at four places, with four different messages.
  The constructors below name the four places the way the specification does:
  \<^item> \<open>ConfigurationError\<close>: \<^verbatim>\<open>RuntimeError("Nenhum token informado. ...")\<close> in
    \<^verbatim>\<open>TokenManager.__init__\<close>;
  \<^item> \<open>ApiError e\<close>: \<^verbatim>\<open>RuntimeError(f"Erro GraphQL: {payload['errors']}")\<close>, where \<open>e\<close> is
    the rendering of \<^verbatim>\<open>payload['errors']\<close> that the message embeds;
  \<^item> \<open>HttpError s t\<close>: \<^verbatim>\<open>RuntimeError(f"Falha na chamada GraphQL: HTTP {s} - {t}")\<close>;
  \<^item> \<open>ExhaustedRetriesError\<close>: the \<^verbatim>\<open>RuntimeError\<close> after the retry loop.
  The other constructors are the exceptions Python itself raises on \<^verbatim>\<open>xs[i]\<close> out of
  range, on \<^verbatim>\<open>d[k]\<close> for a missing key and on \<^verbatim>\<open>% 0\<close>.
\<close>

datatype error =
    ConfigurationError
  | ApiError string
  | HttpError int string
  | ExhaustedRetriesError
  | IndexError
  | KeyError string
  | ZeroDivisionError

text \<open>
  \<^verbatim>\<open>str.strip()\<close> removes leading and trailing whitespace. On ASCII text the whitespace
  characters of Python are the codes 9 to 13 and 28 to 32.
\<close>

definition isspace :: "char \<Rightarrow> bool" where
  "isspace c = (let n = (of_char c :: nat) in (9 \<le> n \<and> n \<le> 13) \<or> (28 \<le> n \<and> n \<le> 32))"

definition strip :: "string \<Rightarrow> string" where
  "strip s = rev (dropWhile isspace (rev (dropWhile isspace s)))"

text \<open>
  \<^verbatim>\<open>str.lower()\<close> on the letters A to Z. Lower-casing a character outside ASCII never
  yields one of the letters of \<^verbatim>\<open>"rate limit"\<close> alone, so for the test
  \<^verbatim>\<open>"rate limit" in s.lower()\<close> the ASCII letters decide.
\<close>

definition lower_char :: "char \<Rightarrow> char" where
  "lower_char c =
     (case map_of (zip ''ABCDEFGHIJKLMNOPQRSTUVWXYZ'' ''abcdefghijklmnopqrstuvwxyz'') c of
        None \<Rightarrow> c
      | Some l \<Rightarrow> l)"

definition lower :: "string \<Rightarrow> string" where
  "lower s = map lower_char s"

text \<open>\<^verbatim>\<open>sub in s\<close> for strings: \<open>sub\<close> occurs in \<open>s\<close> as a contiguous block.\<close>

fun starts_with :: "string \<Rightarrow> string \<Rightarrow> bool" where
  "starts_with [] s = True"
| "starts_with (c # cs) [] = False"
| "starts_with (c # cs) (d # ds) = (c = d \<and> starts_with cs ds)"

fun contains :: "string \<Rightarrow> string \<Rightarrow> bool" where
  "contains sub [] = (sub = [])"
| "contains sub (d # ds) = (starts_with sub (d # ds) \<or> contains sub ds)"

section \<open>TokenManager\<close>

text \<open>
  \<^verbatim>\<open>class TokenManager\<close> has the attributes \<^verbatim>\<open>tokens\<close> and \<^verbatim>\<open>index\<close>. The index
  starts at 0 and is only ever assigned \<^verbatim>\<open>(index + 1) % len(tokens)\<close>, so it is a \<open>nat\<close>.
\<close>

record token_manager =
  tokens :: "string list"
  index :: nat

text \<open>
  \<^verbatim>\<open>__init__\<close>:
  \<^verbatim>\<open>cleaned_tokens = [token.strip() for token in tokens if token and token.strip()]\<close>,
  then \<^verbatim>\<open>RuntimeError\<close> when the list is empty. A string is truthy when it is not empty.
\<close>

definition TokenManager_init :: "string list \<Rightarrow> error + token_manager" where
  "TokenManager_init toks =
     (let cleaned_tokens = map strip (filter (\<lambda>token. token \<noteq> [] \<and> strip token \<noteq> []) toks)
      in if cleaned_tokens = [] then Inl ConfigurationError
         else Inr \<lparr>tokens = cleaned_tokens, index = 0\<rparr>)"

text \<open>\<^verbatim>\<open>current_token\<close>: \<^verbatim>\<open>self.tokens[self.index]\<close>, an \<^verbatim>\<open>IndexError\<close> out of range.\<close>

definition current_token :: "token_manager \<Rightarrow> error + string" where
  "current_token tm =
     (if index tm < length (tokens tm) then Inr (tokens tm ! index tm) else Inl IndexError)"

text \<open>
  \<^verbatim>\<open>next_token\<close>: \<^verbatim>\<open>self.index = (self.index + 1) % len(self.tokens)\<close>, a
  \<^verbatim>\<open>ZeroDivisionError\<close> on an empty list.
\<close>

definition next_token :: "token_manager \<Rightarrow> error + token_manager" where
  "next_token tm =
     (if length (tokens tm) = 0 then Inl ZeroDivisionError
      else Inr (tm\<lparr>index := (index tm + 1) mod length (tokens tm)\<rparr>))"

text \<open>\<^verbatim>\<open>next_token()\<close> called \<open>n\<close> times in a row; the first exception ends the run.\<close>

fun next_token_times :: "nat \<Rightarrow> token_manager \<Rightarrow> error + token_manager" where
  "next_token_times 0 tm = Inr tm"
| "next_token_times (Suc n) tm =
     (case next_token tm of Inl e \<Rightarrow> Inl e | Inr tm' \<Rightarrow> next_token_times n tm')"

text \<open>\<^verbatim>\<open>auth_headers\<close>: the dictionary of the two request headers, as an association list.\<close>

definition auth_headers :: "token_manager \<Rightarrow> error + (string \<times> string) list" where
  "auth_headers tm =
     (case current_token tm of
        Inl e \<Rightarrow> Inl e
      | Inr tok \<Rightarrow> Inr [(''Authorization'', ''Bearer '' @ tok), (''Content-Type'', ''application/json'')])"

section \<open>Requests, responses and the world outside\<close>

text \<open>
  The constants of \<^verbatim>\<open>scripts/configuracao.py\<close>. \<^verbatim>\<open>PAGE_SIZE\<close> is read from the
  environment there (\<^verbatim>\<open>int(os.getenv("PAGE_SIZE", "10"))\<close>), so the functions below
  take it as a parameter.
\<close>

definition GITHUB_GRAPHQL_URL :: string where
  "GITHUB_GRAPHQL_URL = ''https://api.github.com/graphql''"

definition REPOSITORY_SEARCH_QUERY :: string where
  "REPOSITORY_SEARCH_QUERY = ''stars:>1 sort:stars-desc is:public''"

text \<open>The query text: a line feed, the lines joined by line feeds, a line feed.\<close>

definition GRAPHQL_QUERY :: string where
  "GRAPHQL_QUERY = concat (map (\<lambda>l. CHR 0x0A # l)
     [''query ($searchQuery: String!, $first: Int!, $after: String) {'',
      ''  search(query: $searchQuery, type: REPOSITORY, first: $first, after: $after) {'',
      ''    pageInfo {'',
      ''      hasNextPage'',
      ''      endCursor'',
      ''    }'',
      ''    nodes {'',
      ''      ... on Repository {'',
      ''        nameWithOwner'',
      ''        url'',
      ''        stargazerCount'',
      ''        createdAt'',
      ''        pushedAt'',
      ''        primaryLanguage {'',
      ''          name'',
      ''        }'',
      ''        pullRequests(states: MERGED, first: 1) {'',
      ''          totalCount'',
      ''        }'',
      ''        releases(first: 1) {'',
      ''          totalCount'',
      ''        }'',
      ''        totalIssues: issues(first: 1) {'',
      ''          totalCount'',
      ''        }'',
      ''        closedIssues: issues(states: CLOSED, first: 1) {'',
      ''          totalCount'',
      ''        }'',
      ''      }'',
      ''    }'',
      ''  }'',
      ''}'']) @ [CHR 0x0A]"

text \<open>
  What \<^verbatim>\<open>requests.post(url, json={"query": ..., "variables": ...}, headers=..., timeout=120)\<close>
  sends.
\<close>

record 'v request =
  req_url :: string
  req_query :: string
  req_variables :: 'v
  req_headers :: "(string \<times> string) list"
  req_timeout :: int

text \<open>
  What the client reads of a response. The body of a 200 response is a JSON object
  (\<^verbatim>\<open>response.json()\<close>); the client looks at two of its keys, each of which may be
  missing. The value under \<^verbatim>\<open>"errors"\<close> is used through \<^verbatim>\<open>str(...)\<close> only, so it is
  kept as that text. The two rate-limit headers carry integers when they are present
  (\<open>None\<close>: the header is absent, and \<^verbatim>\<open>headers.get\<close> yields its default).
\<close>

record 'd payload =
  errors :: "string option"
  data :: "'d option"

record 'd response =
  status_code :: int
  body :: string
  json :: "'d payload"
  X_RateLimit_Remaining :: "int option"
  X_RateLimit_Reset :: "int option"

text \<open>
  The effects of the module on the world are the requests it posts and the time it
  sleeps. A trace lists them in the order they happen, each request with the response it
  got.
\<close>

datatype ('v, 'd) event = Post "'v request" "'d response" | Sleep int

text \<open>
  The world outside is a parameter: what the server answers to a request, and what
  \<^verbatim>\<open>int(time.time())\<close> reads, each as a function of everything that happened before.
\<close>

record ('v, 'd) endpoint =
  respond :: "('v, 'd) event list \<Rightarrow> 'v request \<Rightarrow> 'd response"
  clock :: "('v, 'd) event list \<Rightarrow> int"

text \<open>The requests of a trace, and the seconds slept, in order.\<close>

fun posts_of :: "('v, 'd) event list \<Rightarrow> 'v request list" where
  "posts_of [] = []"
| "posts_of (Post rq rs # evs) = rq # posts_of evs"
| "posts_of (Sleep s # evs) = posts_of evs"

fun responses_of :: "('v, 'd) event list \<Rightarrow> 'd response list" where
  "responses_of [] = []"
| "responses_of (Post rq rs # evs) = rs # responses_of evs"
| "responses_of (Sleep s # evs) = responses_of evs"

fun sleeps_of :: "('v, 'd) event list \<Rightarrow> int list" where
  "sleeps_of [] = []"
| "sleeps_of (Post rq rs # evs) = sleeps_of evs"
| "sleeps_of (Sleep s # evs) = s # sleeps_of evs"

text \<open>
  \<^verbatim>\<open>sleep_until_reset\<close>:
  \<^verbatim>\<open>wait_seconds = max(1, int(reset_timestamp) - int(time.time()) + 2)\<close>, then
  \<^verbatim>\<open>time.sleep(wait_seconds)\<close>. The token manager is not changed.
\<close>

definition sleep_until_reset ::
  "('v, 'd) endpoint \<Rightarrow> int \<Rightarrow> ('v, 'd) event list \<Rightarrow> ('v, 'd) event list" where
  "sleep_until_reset ep reset_timestamp tr =
     (let wait_seconds = max 1 (reset_timestamp - clock ep tr + 2)
      in tr @ [Sleep wait_seconds])"

section \<open>graphql\_request\<close>

text \<open>
  The retry loop of \<^verbatim>\<open>graphql_request\<close>, one call of \<open>graphql_loop\<close> for each test of
  \<^verbatim>\<open>while attempts < max_attempts\<close>. The result is what the function returns or raises,
  with the token manager and the trace as they are at that moment.
\<close>

function graphql_loop ::
  "('v, 'd) endpoint \<Rightarrow> string \<Rightarrow> 'v \<Rightarrow> nat \<Rightarrow> nat \<Rightarrow> token_manager \<Rightarrow> ('v, 'd) event list
     \<Rightarrow> (error + 'd) \<times> token_manager \<times> ('v, 'd) event list" where
  "graphql_loop ep query variables max_attempts attempts0 tm tr =
     (if attempts0 < max_attempts then
        (let attempts = attempts0 + 1 in
         case auth_headers tm of
           Inl e \<Rightarrow> (Inl e, tm, tr)
         | Inr hs \<Rightarrow>
            (let rq = \<lparr>req_url = GITHUB_GRAPHQL_URL, req_query = query,
                       req_variables = variables, req_headers = hs, req_timeout = 120\<rparr>;
                 response = respond ep tr rq;
                 tr1 = tr @ [Post rq response];
                 remaining = (case X_RateLimit_Remaining response of None \<Rightarrow> 1 | Some r \<Rightarrow> r);
                 reset_at = (case X_RateLimit_Reset response of None \<Rightarrow> 0 | Some r \<Rightarrow> r)
             in if status_code response = 200 then
                  (let payload = json response in
                   case errors payload of
                     Some errs \<Rightarrow>
                       (let errors_text = lower errs in
                        if contains ''rate limit'' errors_text then
                          (case next_token tm of
                             Inl e \<Rightarrow> (Inl e, tm, tr1)
                           | Inr tm' \<Rightarrow>
                               graphql_loop ep query variables max_attempts attempts tm'
                                 (if index tm' = 0 \<and> reset_at > 0
                                  then sleep_until_reset ep reset_at tr1 else tr1))
                        else (Inl (ApiError errs), tm, tr1))
                   | None \<Rightarrow>
                       (case (if remaining \<le> 1 then next_token tm else Inr tm) of
                          Inl e \<Rightarrow> (Inl e, tm, tr1)
                        | Inr tm' \<Rightarrow>
                            (case data payload of
                               None \<Rightarrow> (Inl (KeyError ''data''), tm', tr1)
                             | Some d \<Rightarrow> (Inr d, tm', tr1))))
                else
                  (let response_text = lower (body response) in
                   if status_code response \<in> {403, 429} \<or> contains ''rate limit'' response_text then
                     (case next_token tm of
                        Inl e \<Rightarrow> (Inl e, tm, tr1)
                      | Inr tm' \<Rightarrow>
                          graphql_loop ep query variables max_attempts attempts tm'
                            (if index tm' = 0 \<and> reset_at > 0
                             then sleep_until_reset ep reset_at tr1 else tr1))
                   else if status_code response \<in> {500, 502, 503, 504} then
                     (let wait_time = 5 + (int attempts * 2) in
                      graphql_loop ep query variables max_attempts attempts tm
                        (tr1 @ [Sleep wait_time]))
                   else (Inl (HttpError (status_code response) (body response)), tm, tr1))))
      else (Inl ExhaustedRetriesError, tm, tr))"
  by pat_completeness auto
termination
  by (relation "measure (\<lambda>(ep, query, variables, max_attempts, attempts0, tm, tr).
        max_attempts - attempts0)") auto

declare graphql_loop.simps [simp del]

text \<open>
  \<^verbatim>\<open>graphql_request\<close>: \<^verbatim>\<open>attempts = 0\<close>,
  \<^verbatim>\<open>max_attempts = max(5, len(token_manager.tokens) * 3)\<close>, then the loop.
\<close>

definition graphql_request ::
  "('v, 'd) endpoint \<Rightarrow> token_manager \<Rightarrow> string \<Rightarrow> 'v \<Rightarrow> ('v, 'd) event list
     \<Rightarrow> (error + 'd) \<times> token_manager \<times> ('v, 'd) event list" where
  "graphql_request ep token_manager query variables tr =
     graphql_loop ep query variables (max 5 (length (tokens token_manager) * 3)) 0 token_manager tr"

section \<open>fetch\_top\_repositories\<close>

text \<open>
  The variables of the search query, and the part of the answer that
  \<^verbatim>\<open>fetch_top_repositories\<close> reads: \<^verbatim>\<open>data["search"]\<close>, its \<^verbatim>\<open>"nodes"\<close> (a list whose
  entries may be \<^verbatim>\<open>None\<close>) and its \<^verbatim>\<open>"pageInfo"\<close>. A record of type \<open>'r\<close> is one
  repository, passed on as it came.
\<close>

record variables =
  searchQuery :: string
  first :: int
  after :: "string option"

record page_info =
  hasNextPage :: "bool option"
  endCursor :: "string option"

record 'r search_result =
  nodes :: "'r option list option"
  pageInfo :: "page_info option"

record 'r search_data =
  search :: "'r search_result option"

text \<open>\<^verbatim>\<open>[node for node in nodes if node is not None]\<close>\<close>

definition not_None_nodes :: "'r option list \<Rightarrow> 'r list" where
  "not_None_nodes ns = map the (filter (\<lambda>node. node \<noteq> None) ns)"

text \<open>
  The loop \<^verbatim>\<open>while remaining > 0\<close> of \<^verbatim>\<open>fetch_top_repositories\<close>. Nothing in the loop
  bounds the number of its rounds, so the result is an \<open>option\<close>: \<open>None\<close> when the loop
  runs forever. \<^verbatim>\<open>search_result.get("pageInfo", {})\<close> is the empty dictionary when the key
  is missing, and \<^verbatim>\<open>not page_info.get("hasNextPage")\<close> holds unless the value is true.
\<close>

partial_function (option) fetch_loop ::
  "(variables, 'r search_data) endpoint \<Rightarrow> int \<Rightarrow> 'r list \<Rightarrow> string option \<Rightarrow> int
     \<Rightarrow> token_manager \<Rightarrow> (variables, 'r search_data) event list
     \<Rightarrow> ((error + 'r list) \<times> token_manager \<times> (variables, 'r search_data) event list) option" where
  "fetch_loop ep PAGE_SIZE all_repos cursor remaining tm tr =
     (if remaining > 0 then
        (let batch_size = min PAGE_SIZE remaining;
             vars = \<lparr>searchQuery = REPOSITORY_SEARCH_QUERY, first = batch_size, after = cursor\<rparr>
         in case graphql_request ep tm GRAPHQL_QUERY vars tr of
              (Inl e, tm', tr') \<Rightarrow> Some (Inl e, tm', tr')
            | (Inr d, tm', tr') \<Rightarrow>
               (case search d of
                  None \<Rightarrow> Some (Inl (KeyError ''search''), tm', tr')
                | Some search_result \<Rightarrow>
                   (case nodes search_result of
                      None \<Rightarrow> Some (Inl (KeyError ''nodes''), tm', tr')
                    | Some ns \<Rightarrow>
                       (let repos = not_None_nodes ns;
                            all_repos' = all_repos @ repos;
                            remaining' = remaining - int (length repos);
                            page_info = (case pageInfo search_result of
                                           None \<Rightarrow> \<lparr>hasNextPage = None, endCursor = None\<rparr>
                                         | Some pi \<Rightarrow> pi)
                        in if hasNextPage page_info \<noteq> Some True \<or> remaining' \<le> 0
                           then Some (Inr all_repos', tm', tr')
                           else fetch_loop ep PAGE_SIZE all_repos' (endCursor page_info)
                                  remaining' tm' (tr' @ [Sleep 1])))))
      else Some (Inr all_repos, tm, tr))"

text \<open>
  \<^verbatim>\<open>fetch_top_repositories\<close>: the empty list at once for \<^verbatim>\<open>limit <= 0\<close>, otherwise the
  loop from \<^verbatim>\<open>all_repos = []\<close>, \<^verbatim>\<open>cursor = None\<close>, \<^verbatim>\<open>remaining = limit\<close>.
\<close>

definition fetch_top_repositories ::
  "(variables, 'r search_data) endpoint \<Rightarrow> int \<Rightarrow> token_manager \<Rightarrow> int
     \<Rightarrow> (variables, 'r search_data) event list
     \<Rightarrow> ((error + 'r list) \<times> token_manager \<times> (variables, 'r search_data) event list) option" where
  "fetch_top_repositories ep PAGE_SIZE token_manager limit tr =
     (if limit \<le> 0 then Some (Inr [], token_manager, tr)
      else fetch_loop ep PAGE_SIZE [] None limit token_manager tr)"

section \<open>Notions used in the statements\<close>

text \<open>
  The invariant of the class: the index points into the list of tokens (so the list is
  not empty). \<^verbatim>\<open>__init__\<close> establishes it and \<^verbatim>\<open>next_token\<close> keeps it.
\<close>

definition tm_ok :: "token_manager \<Rightarrow> bool" where
  "tm_ok tm = (index tm < length (tokens tm))"

text \<open>The token manager after one \<^verbatim>\<open>next_token()\<close> that does not fail.\<close>

definition rotated :: "token_manager \<Rightarrow> token_manager" where
  "rotated tm = tm\<lparr>index := (index tm + 1) mod length (tokens tm)\<rparr>"

text \<open>The request that the retry loop posts while \<open>tm\<close> is the token manager.\<close>

definition request_of :: "token_manager \<Rightarrow> string \<Rightarrow> 'v \<Rightarrow> 'v request" where
  "request_of tm query variables =
     \<lparr>req_url = GITHUB_GRAPHQL_URL, req_query = query, req_variables = variables,
      req_headers = [(''Authorization'', ''Bearer '' @ tokens tm ! index tm),
                     (''Content-Type'', ''application/json'')],
      req_timeout = 120\<rparr>"

text \<open>
  The values \<^verbatim>\<open>remaining\<close> and \<^verbatim>\<open>reset_at\<close> that the loop reads from a response, and
  the test that sends the loop into its rotate-and-retry branch.
\<close>

definition remaining_of :: "'d response \<Rightarrow> int" where
  "remaining_of rs = (case X_RateLimit_Remaining rs of None \<Rightarrow> 1 | Some r \<Rightarrow> r)"

definition reset_of :: "'d response \<Rightarrow> int" where
  "reset_of rs = (case X_RateLimit_Reset rs of None \<Rightarrow> 0 | Some r \<Rightarrow> r)"

definition rate_limited :: "'d response \<Rightarrow> bool" where
  "rate_limited rs =
     (if status_code rs = 200
      then (case errors (json rs) of
              None \<Rightarrow> False
            | Some errs \<Rightarrow> contains ''rate limit'' (lower errs))
      else status_code rs \<in> {403, 429} \<or> contains ''rate limit'' (lower (body rs)))"

text \<open>
  The trace of a run in which every round posts the request \<open>rq\<close> and then sleeps:
  \<open>5 + k * 2\<close> seconds after the first request of the list, two seconds more after each
  further one.
\<close>

fun backoff_shape :: "'v request \<Rightarrow> int \<Rightarrow> ('v, 'd) event list \<Rightarrow> bool" where
  "backoff_shape rq k [] = True"
| "backoff_shape rq k (Post rq' rs # Sleep s # evs) =
     (rq' = rq \<and> s = 5 + k * 2 \<and> backoff_shape rq (k + 1) evs)"
| "backoff_shape rq k evs = False"

text \<open>The credential that a request carries: its \<^verbatim>\<open>Authorization\<close> header.\<close>

definition credential_of :: "'v request \<Rightarrow> string option" where
  "credential_of rq = map_of (req_headers rq) ''Authorization''"

section \<open>Example inputs\<close>

text \<open>Token managers with one, two and three tokens.\<close>

definition tm_a :: token_manager where
  "tm_a = \<lparr>tokens = [''a''], index = 0\<rparr>"

definition tm_ab :: token_manager where
  "tm_ab = \<lparr>tokens = [''a'', ''b''], index = 0\<rparr>"

definition tm_abc :: token_manager where
  "tm_abc = \<lparr>tokens = [''a'', ''b'', ''c''], index = 1\<rparr>"

text \<open>
  Endpoints that give the same answer to every request: a 502, a 502 whose body speaks of
  a rate limit, a GraphQL error, and a page of results without rate-limit headers.
\<close>

definition r_502 :: "string search_data response" where
  "r_502 = \<lparr>status_code = 502, body = ''Bad Gateway'', json = \<lparr>errors = None, data = None\<rparr>,
            X_RateLimit_Remaining = None, X_RateLimit_Reset = None\<rparr>"

definition r_502_rate_limit :: "string search_data response" where
  "r_502_rate_limit = \<lparr>status_code = 502, body = ''API Rate Limit exceeded'',
            json = \<lparr>errors = None, data = None\<rparr>,
            X_RateLimit_Remaining = None, X_RateLimit_Reset = None\<rparr>"

definition ep_502 :: "(variables, string search_data) endpoint" where
  "ep_502 = \<lparr>respond = (\<lambda>tr rq. r_502), clock = (\<lambda>tr. 0)\<rparr>"

definition ep_502_rate_limit :: "(variables, string search_data) endpoint" where
  "ep_502_rate_limit = \<lparr>respond = (\<lambda>tr rq. r_502_rate_limit), clock = (\<lambda>tr. 0)\<rparr>"

definition vars_10 :: variables where
  "vars_10 = \<lparr>searchQuery = REPOSITORY_SEARCH_QUERY, first = 10, after = None\<rparr>"

definition r_bad_syntax :: "string search_data response" where
  "r_bad_syntax = \<lparr>status_code = 200, body = ''{\"errors\": [{\"message\": \"Bad syntax\"}]}'',
            json = \<lparr>errors = Some ''[{'message': 'Bad syntax'}]'', data = None\<rparr>,
            X_RateLimit_Remaining = Some 4999, X_RateLimit_Reset = Some 1700000000\<rparr>"

definition ep_bad_syntax :: "(variables, string search_data) endpoint" where
  "ep_bad_syntax = \<lparr>respond = (\<lambda>tr rq. r_bad_syntax), clock = (\<lambda>tr. 0)\<rparr>"

definition page_ab :: "string search_data" where
  "page_ab = \<lparr>search = Some \<lparr>nodes = Some [Some ''torvalds/linux'', None, Some ''golang/go''],
                              pageInfo = Some \<lparr>hasNextPage = Some True, endCursor = Some ''Y3Vyc29yOjI=''\<rparr>\<rparr>\<rparr>"

definition r_ok_no_header :: "string search_data response" where
  "r_ok_no_header = \<lparr>status_code = 200, body = ''{\"data\": {}}'',
            json = \<lparr>errors = None, data = Some page_ab\<rparr>,
            X_RateLimit_Remaining = None, X_RateLimit_Reset = None\<rparr>"

definition ep_ok_no_header :: "(variables, string search_data) endpoint" where
  "ep_ok_no_header = \<lparr>respond = (\<lambda>tr rq. r_ok_no_header), clock = (\<lambda>tr. 0)\<rparr>"

text \<open>
  Responses with status 429 and 200, and endpoints that answer the first two requests
  with a 429 and every later one with a page of results.
\<close>

definition r_429 :: "string search_data response" where
  "r_429 = \<lparr>status_code = 429, body = ''Too Many Requests'',
            json = \<lparr>errors = None, data = None\<rparr>,
            X_RateLimit_Remaining = Some 0, X_RateLimit_Reset = Some 1700000060\<rparr>"

definition r_ok_4999 :: "string search_data response" where
  "r_ok_4999 = \<lparr>status_code = 200, body = ''{\"data\": {}}'',
            json = \<lparr>errors = None, data = Some page_ab\<rparr>,
            X_RateLimit_Remaining = Some 4999, X_RateLimit_Reset = Some 1700000060\<rparr>"

definition r_ok_1 :: "string search_data response" where
  "r_ok_1 = \<lparr>status_code = 200, body = ''{\"data\": {}}'',
            json = \<lparr>errors = None, data = Some page_ab\<rparr>,
            X_RateLimit_Remaining = Some 1, X_RateLimit_Reset = Some 1700000060\<rparr>"

definition ep_429_429_ok :: "(variables, string search_data) endpoint" where
  "ep_429_429_ok = \<lparr>respond = (\<lambda>tr rq. if length (posts_of tr) < 2 then r_429 else r_ok_4999),
                     clock = (\<lambda>tr. 1700000000)\<rparr>"

definition ep_429_429_ok_no_header :: "(variables, string search_data) endpoint" where
  "ep_429_429_ok_no_header =
     \<lparr>respond = (\<lambda>tr rq. if length (posts_of tr) < 2 then r_429 else r_ok_no_header),
      clock = (\<lambda>tr. 1700000000)\<rparr>"

definition ep_ok_1 :: "(variables, string search_data) endpoint" where
  "ep_ok_1 = \<lparr>respond = (\<lambda>tr rq. r_ok_1), clock = (\<lambda>tr. 1700000000)\<rparr>"


section \<open>Properties of the token manager\<close>

lemma strip_Nil: "strip [] = []"
  by (simp add: strip_def)

lemma cleaned_tokens_eq:
  "map strip (filter (\<lambda>token. token \<noteq> [] \<and> strip token \<noteq> []) toks)
     = filter (\<lambda>t. t \<noteq> []) (map strip toks)"
proof -
  have "(\<lambda>token. token \<noteq> [] \<and> strip token \<noteq> []) = ((\<lambda>t. t \<noteq> []) \<circ> strip)"
    by (auto simp: fun_eq_iff strip_Nil)
  then show ?thesis by (simp add: filter_map)
qed

text \<open>
  C7. Constructing the token manager from a list of strings raises the configuration
  error exactly when no entry is left after every entry is stripped and the empty ones
  are dropped; otherwise it succeeds, keeps the stripped non-empty entries in their order
  and starts at index 0.
\<close>

theorem TokenManager_init_spec:
  "TokenManager_init toks =
     (if filter (\<lambda>t. t \<noteq> []) (map strip toks) = [] then Inl ConfigurationError
      else Inr \<lparr>tokens = filter (\<lambda>t. t \<noteq> []) (map strip toks), index = 0\<rparr>)"
  unfolding TokenManager_init_def Let_def cleaned_tokens_eq by simp


theorem TokenManager_init_spec_witness:
  "TokenManager_init ['' a '', [], ''  '', ''b''] = Inr \<lparr>tokens = [''a'', ''b''], index = 0\<rparr>
   \<and> TokenManager_init [[], '' ''] = Inl ConfigurationError"
  using TokenManager_init_spec [of "['' a '', [], ''  '', ''b'']"]
    TokenManager_init_spec [of "[[], '' '']"]
  by (simp add: strip_def isspace_def)

lemma next_token_ok: "tm_ok tm \<Longrightarrow> next_token tm = Inr (rotated tm)"
  by (auto simp: next_token_def tm_ok_def rotated_def)

lemma rotated_ok: "tm_ok tm \<Longrightarrow> tm_ok (rotated tm)"
proof -
  assume "tm_ok tm"
  then have "0 < length (tokens tm)" by (cases "tokens tm") (simp_all add: tm_ok_def)
  then have "(index tm + 1) mod length (tokens tm) < length (tokens tm)"
    by (rule mod_less_divisor)
  then show ?thesis by (simp add: tm_ok_def rotated_def)
qed

lemma tokens_rotated: "tokens (rotated tm) = tokens tm"
  by (simp add: rotated_def)

lemma index_rotated: "index (rotated tm) = (index tm + 1) mod length (tokens tm)"
  by (simp add: rotated_def)

text \<open>After \<open>k + 1\<close> calls the index has moved \<open>k + 1\<close> places round the list.\<close>

lemma next_token_times_index:
  "tokens tm \<noteq> [] \<Longrightarrow>
   next_token_times (Suc k) tm = Inr (tm\<lparr>index := (index tm + Suc k) mod length (tokens tm)\<rparr>)"
proof (induction k arbitrary: tm)
  case 0
  then show ?case by (simp add: next_token_def)
next
  case (Suc k)
  let ?n = "length (tokens tm)"
  let ?tm' = "tm\<lparr>index := (index tm + 1) mod ?n\<rparr>"
  have nt: "next_token tm = Inr ?tm'" using Suc.prems by (simp add: next_token_def)
  have ne: "tokens ?tm' \<noteq> []" using Suc.prems by simp
  have step: "next_token_times (Suc (Suc k)) tm = next_token_times (Suc k) ?tm'"
    by (simp only: next_token_times.simps(2) [of "Suc k" tm] nt sum.case)
  have "((index tm + 1) mod ?n + Suc k) mod ?n = ((index tm + 1) + Suc k) mod ?n"
    by (rule mod_add_left_eq)
  also have "(index tm + 1) + Suc k = index tm + Suc (Suc k)" by simp
  finally have "next_token_times (Suc k) ?tm'
      = Inr (tm\<lparr>index := (index tm + Suc (Suc k)) mod ?n\<rparr>)"
    using Suc.IH [OF ne] by simp
  with step show ?case by simp
qed

text \<open>
  C9. For a token manager with at least one token whose index points into the list,
  \<^verbatim>\<open>next_token()\<close> called as many times as there are tokens leaves the token manager as
  it was, and one call takes the index \<open>i\<close> to \<open>(i + 1) mod count\<close>.
\<close>

theorem next_token_circular:
  assumes "tokens tm \<noteq> []" and "index tm < length (tokens tm)"
  shows "next_token_times (length (tokens tm)) tm = Inr tm
       \<and> next_token tm = Inr (tm\<lparr>index := (index tm + 1) mod length (tokens tm)\<rparr>)"
proof -
  from assms(1) obtain k where k: "length (tokens tm) = Suc k" by (cases "tokens tm") auto
  have "next_token_times (Suc k) tm
      = Inr (tm\<lparr>index := (index tm + Suc k) mod length (tokens tm)\<rparr>)"
    using assms(1) by (rule next_token_times_index)
  moreover have "(index tm + Suc k) mod length (tokens tm) = index tm"
    using assms(2) k by (metis mod_add_self2 mod_less)
  ultimately show ?thesis using assms(1) k by (simp add: next_token_def)
qed

theorem next_token_circular_witness:
  "tokens tm_abc \<noteq> [] \<and> index tm_abc < length (tokens tm_abc)
   \<and> next_token_times (length (tokens tm_abc)) tm_abc = Inr tm_abc
   \<and> next_token tm_abc = Inr (tm_abc\<lparr>index := (index tm_abc + 1) mod length (tokens tm_abc)\<rparr>)
   \<and> (index tm_abc + 1) mod length (tokens tm_abc) = 2"
proof -
  have h1: "tokens tm_abc \<noteq> []" and h2: "index tm_abc < length (tokens tm_abc)"
    by (simp_all add: tm_abc_def)
  have "(index tm_abc + 1) mod length (tokens tm_abc) = 2" by (simp add: tm_abc_def)
  with h1 h2 next_token_circular [OF h1 h2] show ?thesis by simp
qed


section \<open>One round of the retry loop\<close>

lemma auth_headers_ok:
  "tm_ok tm \<Longrightarrow> auth_headers tm = Inr (req_headers (request_of tm q v))"
  by (simp add: auth_headers_def current_token_def tm_ok_def request_of_def)

lemma auth_headers_bad: "\<not> tm_ok tm \<Longrightarrow> auth_headers tm = Inl IndexError"
  by (simp add: auth_headers_def current_token_def tm_ok_def)

lemma request_of_eq:
  "tm_ok tm \<Longrightarrow> auth_headers tm = Inr hs \<Longrightarrow>
   \<lparr>req_url = GITHUB_GRAPHQL_URL, req_query = q, req_variables = v, req_headers = hs,
    req_timeout = 120\<rparr> = request_of tm q v"
  by (auto simp: auth_headers_def current_token_def tm_ok_def request_of_def)

lemma loop_exhausted:
  "\<not> a < m \<Longrightarrow> graphql_loop ep q v m a tm tr = (Inl ExhaustedRetriesError, tm, tr)"
  by (subst graphql_loop.simps) simp

lemma loop_bad_index:
  "a < m \<Longrightarrow> \<not> tm_ok tm \<Longrightarrow> graphql_loop ep q v m a tm tr = (Inl IndexError, tm, tr)"
  by (subst graphql_loop.simps) (simp add: auth_headers_bad)

lemma request_of_fold:
  "\<lparr>req_url = GITHUB_GRAPHQL_URL, req_query = q, req_variables = v,
    req_headers = req_headers (request_of tm q v), req_timeout = 120\<rparr> = request_of tm q v"
  by (simp add: request_of_def)

lemmas loop_step_simps =
  Let_def request_of_fold next_token_ok remaining_of_def reset_of_def

lemma loop_success:
  assumes "a < m" "tm_ok tm" "respond ep tr (request_of tm q v) = rs"
    and "status_code rs = 200" "errors (json rs) = None"
  shows "graphql_loop ep q v m a tm tr =
           ((case data (json rs) of None \<Rightarrow> Inl (KeyError ''data'') | Some d \<Rightarrow> Inr d),
            (if remaining_of rs \<le> 1 then rotated tm else tm),
            tr @ [Post (request_of tm q v) rs])"
  using assms
  by (subst graphql_loop.simps) (simp add: auth_headers_ok [of tm q v] loop_step_simps split: option.split)

lemma loop_api_error:
  assumes "a < m" "tm_ok tm" "respond ep tr (request_of tm q v) = rs"
    and "status_code rs = 200" "errors (json rs) = Some errs"
    and "\<not> contains ''rate limit'' (lower errs)"
  shows "graphql_loop ep q v m a tm tr =
           (Inl (ApiError errs), tm, tr @ [Post (request_of tm q v) rs])"
  using assms
  by (subst graphql_loop.simps) (simp add: auth_headers_ok [of tm q v] loop_step_simps)

lemma loop_rate_limited:
  assumes "a < m" "tm_ok tm" "respond ep tr (request_of tm q v) = rs" "rate_limited rs"
  shows "graphql_loop ep q v m a tm tr =
           graphql_loop ep q v m (Suc a) (rotated tm)
             (if index (rotated tm) = 0 \<and> reset_of rs > 0
              then sleep_until_reset ep (reset_of rs) (tr @ [Post (request_of tm q v) rs])
              else tr @ [Post (request_of tm q v) rs])"
proof (cases "status_code rs = 200")
  case True
  with assms(4) obtain errs where "errors (json rs) = Some errs"
    "contains ''rate limit'' (lower errs)"
    by (auto simp: rate_limited_def split: option.splits)
  with True assms(1-3) show ?thesis
    by (subst graphql_loop.simps) (simp add: auth_headers_ok [of tm q v] loop_step_simps)
next
  case False
  with assms(4) have "status_code rs \<in> {403, 429} \<or> contains ''rate limit'' (lower (body rs))"
    by (simp add: rate_limited_def)
  with False assms(1-3) show ?thesis
    by (subst graphql_loop.simps) (simp add: auth_headers_ok [of tm q v] loop_step_simps)
qed

lemma loop_server_error:
  assumes "a < m" "tm_ok tm" "respond ep tr (request_of tm q v) = rs"
    and "status_code rs \<in> {500, 502, 503, 504}"
    and "\<not> contains ''rate limit'' (lower (body rs))"
  shows "graphql_loop ep q v m a tm tr =
           graphql_loop ep q v m (Suc a) tm
             (tr @ [Post (request_of tm q v) rs, Sleep (5 + int (Suc a) * 2)])"
proof -
  from assms(4) have "status_code rs \<noteq> 200" "status_code rs \<notin> {403, 429}" by auto
  with assms show ?thesis
    by (subst graphql_loop.simps) (simp add: auth_headers_ok [of tm q v] loop_step_simps)
qed

lemma loop_http_error:
  assumes "a < m" "tm_ok tm" "respond ep tr (request_of tm q v) = rs"
    and "status_code rs \<notin> {200, 403, 429, 500, 502, 503, 504}"
    and "\<not> contains ''rate limit'' (lower (body rs))"
  shows "graphql_loop ep q v m a tm tr =
           (Inl (HttpError (status_code rs) (body rs)), tm, tr @ [Post (request_of tm q v) rs])"
  using assms
  by (subst graphql_loop.simps) (simp add: auth_headers_ok [of tm q v] loop_step_simps)

text \<open>Every response takes exactly one of the five ways through the loop body.\<close>

lemma response_cases:
  obtains (success) "status_code rs = 200" "errors (json rs) = None"
  | (api_error) errs where "status_code rs = 200" "errors (json rs) = Some errs"
      "\<not> contains ''rate limit'' (lower errs)"
  | (limited) "rate_limited rs"
  | (server_error) "status_code rs \<in> {500, 502, 503, 504}"
      "\<not> contains ''rate limit'' (lower (body rs))"
  | (http_error) "status_code rs \<notin> {200, 403, 429, 500, 502, 503, 504}"
      "\<not> contains ''rate limit'' (lower (body rs))"
proof (cases "status_code rs = 200")
  case True
  show ?thesis
  proof (cases "errors (json rs)")
    case None
    with True show ?thesis by (rule success)
  next
    case (Some errs)
    show ?thesis
    proof (cases "contains ''rate limit'' (lower errs)")
      case True
      with \<open>status_code rs = 200\<close> Some have "rate_limited rs" by (simp add: rate_limited_def)
      then show ?thesis by (rule limited)
    next
      case False
      with \<open>status_code rs = 200\<close> Some show ?thesis by (rule api_error)
    qed
  qed
next
  case False
  show ?thesis
  proof (cases "status_code rs \<in> {403, 429} \<or> contains ''rate limit'' (lower (body rs))")
    case True
    with False have "rate_limited rs" by (simp add: rate_limited_def)
    then show ?thesis by (rule limited)
  next
    case nl: False
    show ?thesis
    proof (cases "status_code rs \<in> {500, 502, 503, 504}")
      case True
      with nl show ?thesis by (intro server_error) simp_all
    next
      case False
      with nl \<open>status_code rs \<noteq> 200\<close> show ?thesis by (intro http_error) simp_all
    qed
  qed
qed







section \<open>Whole runs of the retry loop\<close>

text \<open>The loop only adds to the trace.\<close>

lemma loop_trace_grows:
  "\<exists>evs. snd (snd (graphql_loop ep q v m a tm tr)) = tr @ evs"
proof (induction "m - a" arbitrary: a tm tr)
  case 0
  then show ?case by (simp add: loop_exhausted)
next
  case (Suc n)
  then have lt: "a < m" and n: "n = m - Suc a" by simp_all
  show ?case
  proof (cases "tm_ok tm")
    case False
    with lt show ?thesis by (simp add: loop_bad_index)
  next
    case ok: True
    define rs where "rs = respond ep tr (request_of tm q v)"
    then have rs: "respond ep tr (request_of tm q v) = rs" by simp
    show ?thesis
    proof (cases rs rule: response_cases)
      case success
      show ?thesis by (simp add: loop_success [OF lt ok rs success])
    next
      case (api_error errs)
      show ?thesis by (simp add: loop_api_error [OF lt ok rs api_error])
    next
      case limited
      let ?tr' = "if index (rotated tm) = 0 \<and> reset_of rs > 0
              then sleep_until_reset ep (reset_of rs) (tr @ [Post (request_of tm q v) rs])
              else tr @ [Post (request_of tm q v) rs]"
      from Suc.hyps(1) [OF n, of "rotated tm" ?tr'] obtain evs where
        evs: "snd (snd (graphql_loop ep q v m (Suc a) (rotated tm) ?tr')) = ?tr' @ evs" by blast
      have "\<exists>evs0. ?tr' = tr @ evs0" by (simp add: sleep_until_reset_def)
      then obtain evs0 where evs0: "?tr' = tr @ evs0" ..
      have "snd (snd (graphql_loop ep q v m a tm tr)) = ?tr' @ evs"
        by (simp only: loop_rate_limited [OF lt ok rs limited] evs)
      also have "\<dots> = tr @ (evs0 @ evs)" by (simp only: evs0 append_assoc)
      finally show ?thesis by (rule exI)
    next
      case server_error
      let ?tr' = "tr @ [Post (request_of tm q v) rs, Sleep (5 + int (Suc a) * 2)]"
      from Suc.hyps(1) [OF n, of tm ?tr'] obtain evs where
        evs: "snd (snd (graphql_loop ep q v m (Suc a) tm ?tr')) = ?tr' @ evs" by blast
      have "snd (snd (graphql_loop ep q v m a tm tr)) = ?tr' @ evs"
        by (simp only: loop_server_error [OF lt ok rs server_error] evs)
      also have "\<dots> = tr @ ([Post (request_of tm q v) rs, Sleep (5 + int (Suc a) * 2)] @ evs)"
        by (simp only: append_assoc)
      finally show ?thesis by (rule exI)
    next
      case http_error
      show ?thesis by (simp add: loop_http_error [OF lt ok rs http_error])
    qed
  qed
qed





text \<open>
  A call that returns a value ends with a request that was answered by a 200 response
  without errors, and the token manager it leaves is the one that posted this request,
  moved on by one place when the response left at most one request of quota.
\<close>

lemma loop_returns:
  "graphql_loop ep q v m a tm tr = (Inr d, tm', tr') \<Longrightarrow>
   \<exists>tm0 tr0 rs. tm_ok tm0 \<and> tokens tm0 = tokens tm
     \<and> (\<exists>evs. tr0 = tr @ evs)
     \<and> rs = respond ep tr0 (request_of tm0 q v)
     \<and> tr' = tr0 @ [Post (request_of tm0 q v) rs]
     \<and> status_code rs = 200 \<and> errors (json rs) = None \<and> data (json rs) = Some d
     \<and> tm' = (if remaining_of rs \<le> 1 then rotated tm0 else tm0)"
proof (induction "m - a" arbitrary: a tm tr)
  case 0
  then show ?case by (simp add: loop_exhausted)
next
  case (Suc n)
  then have lt: "a < m" and n: "n = m - Suc a" by simp_all
  note ret = Suc.prems
  show ?case
  proof (cases "tm_ok tm")
    case False
    with lt ret show ?thesis by (simp add: loop_bad_index)
  next
    case ok: True
    define rs where "rs = respond ep tr (request_of tm q v)"
    then have rs: "respond ep tr (request_of tm q v) = rs" by simp
    show ?thesis
    proof (cases rs rule: response_cases)
      case success
      from ret have "data (json rs) = Some d"
        and "tm' = (if remaining_of rs \<le> 1 then rotated tm else tm)"
        and "tr' = tr @ [Post (request_of tm q v) rs]"
        by (auto simp: loop_success [OF lt ok rs success] split: option.splits)
      with ok success rs show ?thesis
        by (intro exI [of _ tm] exI [of _ tr] exI [of _ rs]) simp
    next
      case (api_error errs)
      from ret show ?thesis by (simp add: loop_api_error [OF lt ok rs api_error])
    next
      case limited
      let ?tr' = "if index (rotated tm) = 0 \<and> reset_of rs > 0
              then sleep_until_reset ep (reset_of rs) (tr @ [Post (request_of tm q v) rs])
              else tr @ [Post (request_of tm q v) rs]"
      have ext: "\<exists>evs0. ?tr' = tr @ evs0" by (simp add: sleep_until_reset_def)
      from ret have "graphql_loop ep q v m (Suc a) (rotated tm) ?tr' = (Inr d, tm', tr')"
        by (simp only: loop_rate_limited [OF lt ok rs limited])
      from Suc.hyps(1) [OF n this] obtain tm0 tr0 rs0 evs where
        *: "tm_ok tm0" "tokens tm0 = tokens (rotated tm)" "tr0 = ?tr' @ evs"
          "rs0 = respond ep tr0 (request_of tm0 q v)"
          "tr' = tr0 @ [Post (request_of tm0 q v) rs0]"
          "status_code rs0 = 200" "errors (json rs0) = None" "data (json rs0) = Some d"
          "tm' = (if remaining_of rs0 \<le> 1 then rotated tm0 else tm0)"
        by blast
      from ext obtain evs0 where "?tr' = tr @ evs0" ..
      with *(3) have "tr0 = tr @ (evs0 @ evs)" by (simp only: append_assoc)
      then have "\<exists>evs. tr0 = tr @ evs" ..
      with * show ?thesis
        by (intro exI [of _ tm0] exI [of _ tr0] exI [of _ rs0]) (simp add: tokens_rotated)
    next
      case server_error
      let ?tr' = "tr @ [Post (request_of tm q v) rs, Sleep (5 + int (Suc a) * 2)]"
      from ret have "graphql_loop ep q v m (Suc a) tm ?tr' = (Inr d, tm', tr')"
        by (simp only: loop_server_error [OF lt ok rs server_error])
      from Suc.hyps(1) [OF n this] obtain tm0 tr0 rs0 evs where
        *: "tm_ok tm0" "tokens tm0 = tokens tm" "tr0 = ?tr' @ evs"
          "rs0 = respond ep tr0 (request_of tm0 q v)"
          "tr' = tr0 @ [Post (request_of tm0 q v) rs0]"
          "status_code rs0 = 200" "errors (json rs0) = None" "data (json rs0) = Some d"
          "tm' = (if remaining_of rs0 \<le> 1 then rotated tm0 else tm0)"
        by blast
      from *(3) have "\<exists>evs. tr0 = tr @ evs" by simp
      with * show ?thesis
        by (intro exI [of _ tm0] exI [of _ tr0] exI [of _ rs0]) simp
    next
      case http_error
      from ret show ?thesis by (simp add: loop_http_error [OF lt ok rs http_error])
    qed
  qed
qed



section \<open>Claims about graphql\_request\<close>

lemma posts_of_append: "posts_of (xs @ ys) = posts_of xs @ posts_of ys"
  by (induction xs rule: posts_of.induct) simp_all

lemma sleeps_of_append: "sleeps_of (xs @ ys) = sleeps_of xs @ sleeps_of ys"
  by (induction xs rule: sleeps_of.induct) simp_all

lemma responses_of_append: "responses_of (xs @ ys) = responses_of xs @ responses_of ys"
  by (induction xs rule: responses_of.induct) simp_all

text \<open>
  A run of the loop in which every response is a server error whose body does not speak of
  a rate limit: from round \<open>a\<close> on, every round posts the same request and sleeps, and the
  loop gives up after round \<open>m\<close>.
\<close>

lemma loop_server_errors:
  assumes ok: "tm_ok tm"
    and st: "\<forall>tr' rq. status_code (respond ep tr' rq) \<in> {500, 502, 503, 504}"
    and nl: "\<forall>tr' rq. \<not> contains ''rate limit'' (lower (body (respond ep tr' rq)))"
  shows "\<exists>evs. graphql_loop ep q v m a tm tr = (Inl ExhaustedRetriesError, tm, tr @ evs)
           \<and> length (posts_of evs) = m - a
           \<and> backoff_shape (request_of tm q v) (int a + 1) evs
           \<and> sleeps_of evs = map (\<lambda>k. 5 + int k * 2) [Suc a..<Suc m]"
proof (induction "m - a" arbitrary: a tr)
  case 0
  then have "graphql_loop ep q v m a tm tr = (Inl ExhaustedRetriesError, tm, tr @ [])"
    by (simp add: loop_exhausted)
  with 0 show ?case by (intro exI [of _ "[]"]) simp
next
  case (Suc n)
  then have lt: "a < m" and n: "n = m - Suc a" by simp_all
  define rs where "rs = respond ep tr (request_of tm q v)"
  then have rs: "respond ep tr (request_of tm q v) = rs" by simp
  from st rs have st': "status_code rs \<in> {500, 502, 503, 504}" by blast
  from nl rs have nl': "\<not> contains ''rate limit'' (lower (body rs))" by blast
  let ?new = "[Post (request_of tm q v) rs, Sleep (5 + int (Suc a) * 2)]"
  from Suc.hyps(1) [OF n, of "tr @ ?new"] obtain evs where
    evs: "graphql_loop ep q v m (Suc a) tm (tr @ ?new) = (Inl ExhaustedRetriesError, tm, (tr @ ?new) @ evs)"
      "length (posts_of evs) = m - Suc a"
      "backoff_shape (request_of tm q v) (int (Suc a) + 1) evs"
      "sleeps_of evs = map (\<lambda>k. 5 + int k * 2) [Suc (Suc a)..<Suc m]"
    by blast
  have 1: "graphql_loop ep q v m a tm tr = (Inl ExhaustedRetriesError, tm, tr @ (?new @ evs))"
    by (simp only: loop_server_error [OF lt ok rs st' nl'] evs(1) append_assoc)
  have 2: "length (posts_of (?new @ evs)) = m - a" using evs(2) lt by simp
  have 3: "backoff_shape (request_of tm q v) (int a + 1) (?new @ evs)" using evs(3) by simp
  have "[Suc a..<Suc m] = Suc a # [Suc (Suc a)..<Suc m]" using lt by (simp add: upt_conv_Cons)
  then have 4: "sleeps_of (?new @ evs) = map (\<lambda>k. 5 + int k * 2) [Suc a..<Suc m]"
    using evs(4) by simp
  from 1 2 3 4 show ?case by blast
qed

text \<open>
  C1, as amended. If every response has status 500, 502, 503 or 504 and no response body
  contains \<^verbatim>\<open>rate limit\<close> (in any letter case), \<^verbatim>\<open>graphql_request\<close> posts the same request
  (same token) exactly \<open>max(5, count * 3)\<close> times, sleeps \<open>5 + attempt * 2\<close> seconds after
  each of them, leaves the token manager as it was and raises the error of the exhausted
  retries. The condition on the body is needed: the loop tests the body for a rate limit
  before it tests for a server error.
\<close>

theorem graphql_request_server_errors:
  assumes "tm_ok tm"
    and "\<forall>tr' rq. status_code (respond ep tr' rq) \<in> {500, 502, 503, 504}"
    and "\<forall>tr' rq. \<not> contains ''rate limit'' (lower (body (respond ep tr' rq)))"
  shows "\<exists>evs. graphql_request ep tm query variables tr = (Inl ExhaustedRetriesError, tm, tr @ evs)
           \<and> length (posts_of evs) = max 5 (length (tokens tm) * 3)
           \<and> backoff_shape (request_of tm query variables) 1 evs
           \<and> sleeps_of evs = map (\<lambda>k. 5 + int k * 2) [1..<Suc (max 5 (length (tokens tm) * 3))]"
  using loop_server_errors [OF assms, of query variables "max 5 (length (tokens tm) * 3)" 0 tr]
  by (simp add: graphql_request_def)


theorem graphql_request_server_errors_witness:
  "tm_ok tm_a
   \<and> (\<forall>tr' rq. status_code (respond ep_502 tr' rq) \<in> {500, 502, 503, 504})
   \<and> (\<forall>tr' rq. \<not> contains ''rate limit'' (lower (body (respond ep_502 tr' rq))))
   \<and> (\<exists>evs. graphql_request ep_502 tm_a GRAPHQL_QUERY vars_10 []
                = (Inl ExhaustedRetriesError, tm_a, [] @ evs)
           \<and> length (posts_of evs) = 5
           \<and> backoff_shape (request_of tm_a GRAPHQL_QUERY vars_10) 1 evs
           \<and> sleeps_of evs = [7, 9, 11, 13, 15])"
proof -
  have h1: "tm_ok tm_a" by (simp add: tm_ok_def tm_a_def)
  have h2: "\<forall>tr' rq. status_code (respond ep_502 tr' rq) \<in> {500, 502, 503, 504}"
    by (simp add: ep_502_def r_502_def)
  have h3: "\<forall>tr' rq. \<not> contains ''rate limit'' (lower (body (respond ep_502 tr' rq)))"
    by (simp add: ep_502_def r_502_def lower_def lower_char_def)
  have "max 5 (length (tokens tm_a) * 3) = 5" by (simp add: tm_a_def)
  moreover have "map (\<lambda>k. 5 + int k * 2) [1..<Suc 5] = [7, 9, 11, 13, 15]"
    by (simp add: upt_rec)
  ultimately show ?thesis
    using h1 h2 h3 graphql_request_server_errors [OF h1 h2 h3, of GRAPHQL_QUERY vars_10 "[]"]
    by simp
qed

text \<open>
  The claim C1 as stated fails: every response below has status 502, yet the loop never
  sleeps and moves to the next token after each attempt, because the body mentions a rate
  limit.
\<close>

theorem graphql_request_server_errors_counterexample:
  "fst (graphql_request ep_502_rate_limit tm_ab GRAPHQL_QUERY vars_10 []) = Inl ExhaustedRetriesError
   \<and> map status_code (responses_of (snd (snd (graphql_request ep_502_rate_limit tm_ab GRAPHQL_QUERY vars_10 []))))
       = [502, 502, 502, 502, 502, 502]
   \<and> map (\<lambda>rq. map_of (req_headers rq) ''Authorization'')
         (posts_of (snd (snd (graphql_request ep_502_rate_limit tm_ab GRAPHQL_QUERY vars_10 []))))
       = [Some ''Bearer a'', Some ''Bearer b'', Some ''Bearer a'',
          Some ''Bearer b'', Some ''Bearer a'', Some ''Bearer b'']
   \<and> sleeps_of (snd (snd (graphql_request ep_502_rate_limit tm_ab GRAPHQL_QUERY vars_10 []))) = []"
  by code_simp

text \<open>
  C6. If the response to the request is a 200 whose payload has an \<^verbatim>\<open>errors\<close> key whose
  text does not mention a rate limit, \<^verbatim>\<open>graphql_request\<close> raises the GraphQL error with that
  text after this one request: the trace grows by one request, the token manager is
  unchanged.
\<close>

theorem graphql_request_api_error:
  assumes "tm_ok tm"
    and "respond ep tr (request_of tm query variables) = rs"
    and "status_code rs = 200" and "errors (json rs) = Some errs"
    and "\<not> contains ''rate limit'' (lower errs)"
  shows "graphql_request ep tm query variables tr
           = (Inl (ApiError errs), tm, tr @ [Post (request_of tm query variables) rs])"
  unfolding graphql_request_def
  by (rule loop_api_error [OF _ assms]) simp

theorem graphql_request_api_error_witness:
  "tm_ok tm_ab
   \<and> respond ep_bad_syntax [] (request_of tm_ab GRAPHQL_QUERY vars_10) = r_bad_syntax
   \<and> status_code r_bad_syntax = 200
   \<and> errors (json r_bad_syntax) = Some ''[{'message': 'Bad syntax'}]''
   \<and> \<not> contains ''rate limit'' (lower ''[{'message': 'Bad syntax'}]'')
   \<and> graphql_request ep_bad_syntax tm_ab GRAPHQL_QUERY vars_10 []
        = (Inl (ApiError ''[{'message': 'Bad syntax'}]''), tm_ab,
           [] @ [Post (request_of tm_ab GRAPHQL_QUERY vars_10) r_bad_syntax])"
proof -
  have h1: "tm_ok tm_ab" by (simp add: tm_ok_def tm_ab_def)
  have h2: "respond ep_bad_syntax [] (request_of tm_ab GRAPHQL_QUERY vars_10) = r_bad_syntax"
    by (simp add: ep_bad_syntax_def)
  have h3: "status_code r_bad_syntax = 200" by (simp add: r_bad_syntax_def)
  have h4: "errors (json r_bad_syntax) = Some ''[{'message': 'Bad syntax'}]''"
    by (simp add: r_bad_syntax_def)
  have h5: "\<not> contains ''rate limit'' (lower ''[{'message': 'Bad syntax'}]'')"
    by (simp add: lower_def lower_char_def)
  from h1 h2 h3 h4 h5 graphql_request_api_error [OF h1 h2 h3 h4 h5] show ?thesis by blast
qed

text \<open>
  C10. If the response to the request is a 200 without an \<^verbatim>\<open>errors\<close> key and without the
  header \<^verbatim>\<open>X-RateLimit-Remaining\<close>, the loop reads \<^verbatim>\<open>remaining\<close> as 1 and
  \<^verbatim>\<open>graphql_request\<close> moves to the next token before it returns \<^verbatim>\<open>payload["data"]\<close>.
\<close>

theorem graphql_request_remaining_absent:
  assumes "tm_ok tm"
    and "respond ep tr (request_of tm query variables) = rs"
    and "status_code rs = 200" and "errors (json rs) = None"
    and "X_RateLimit_Remaining rs = None"
  shows "remaining_of rs = 1
       \<and> next_token tm = Inr (rotated tm)
       \<and> graphql_request ep tm query variables tr
           = ((case data (json rs) of None \<Rightarrow> Inl (KeyError ''data'') | Some d \<Rightarrow> Inr d),
              rotated tm, tr @ [Post (request_of tm query variables) rs])"
proof -
  have r: "remaining_of rs = 1" using assms(5) by (simp add: remaining_of_def)
  have "0 < max 5 (length (tokens tm) * 3)" by simp
  from loop_success [OF this assms(1-4)] r next_token_ok [OF assms(1)]
  show ?thesis by (simp add: graphql_request_def)
qed

theorem graphql_request_remaining_absent_witness:
  "tm_ok tm_ab
   \<and> respond ep_ok_no_header [] (request_of tm_ab GRAPHQL_QUERY vars_10) = r_ok_no_header
   \<and> status_code r_ok_no_header = 200 \<and> errors (json r_ok_no_header) = None
   \<and> X_RateLimit_Remaining r_ok_no_header = None
   \<and> graphql_request ep_ok_no_header tm_ab GRAPHQL_QUERY vars_10 []
        = (Inr page_ab, \<lparr>tokens = [''a'', ''b''], index = 1\<rparr>,
           [Post (request_of tm_ab GRAPHQL_QUERY vars_10) r_ok_no_header])"
proof -
  have h1: "tm_ok tm_ab" by (simp add: tm_ok_def tm_ab_def)
  have h2: "respond ep_ok_no_header [] (request_of tm_ab GRAPHQL_QUERY vars_10) = r_ok_no_header"
    by (simp add: ep_ok_no_header_def)
  have h3: "status_code r_ok_no_header = 200" "errors (json r_ok_no_header) = None"
    "X_RateLimit_Remaining r_ok_no_header = None"
    by (simp_all add: r_ok_no_header_def)
  have d: "data (json r_ok_no_header) = Some page_ab" by (simp add: r_ok_no_header_def)
  have r: "rotated tm_ab = \<lparr>tokens = [''a'', ''b''], index = 1\<rparr>"
    by (simp add: rotated_def tm_ab_def)
  from h1 h2 h3 graphql_request_remaining_absent [OF h1 h2 h3] d r show ?thesis by simp
qed

lemma rate_limit_wait:
  "\<exists>w. (if c then sleep_until_reset ep r tr1 else tr1) = tr1 @ w
       \<and> posts_of w = [] \<and> responses_of w = []"
  by (simp add: sleep_until_reset_def)

text \<open>One rate-limited round, with what it adds to the trace.\<close>

lemma loop_rate_limited_round:
  assumes "a < m" "tm_ok tm" "respond ep tr (request_of tm q v) = rs" "rate_limited rs"
  shows "\<exists>w. graphql_loop ep q v m a tm tr =
              graphql_loop ep q v m (Suc a) (rotated tm) (tr @ Post (request_of tm q v) rs # w)
           \<and> posts_of w = [] \<and> responses_of w = []"
proof -
  let ?tr1 = "tr @ [Post (request_of tm q v) rs]"
  obtain w where w: "(if index (rotated tm) = 0 \<and> reset_of rs > 0
              then sleep_until_reset ep (reset_of rs) ?tr1 else ?tr1) = ?tr1 @ w"
    "posts_of w = []" "responses_of w = []"
    using rate_limit_wait [of "index (rotated tm) = 0 \<and> reset_of rs > 0" ep "reset_of rs" ?tr1]
    by blast
  have "graphql_loop ep q v m a tm tr = graphql_loop ep q v m (Suc a) (rotated tm) (?tr1 @ w)"
    by (simp only: loop_rate_limited [OF assms] w(1))
  with w(2,3) show ?thesis by (intro exI [of _ w]) simp
qed

lemma status_429_rate_limited: "status_code rs = 429 \<Longrightarrow> rate_limited rs"
  by (simp add: rate_limited_def)

lemma next_token_times_Suc:
  "tm_ok tm \<Longrightarrow> next_token_times (Suc n) tm = next_token_times n (rotated tm)"
  by (simp add: next_token_ok)

text \<open>
  C2, as amended. If the first two requests of a call get a 429 and the third gets a 200
  response \<open>rs\<close> without an \<^verbatim>\<open>errors\<close> key, \<^verbatim>\<open>graphql_request\<close> returns the data of
  \<open>rs\<close> after these three requests, and \<^verbatim>\<open>next_token()\<close> has been called twice when \<open>rs\<close>
  reports more than one remaining request, three times when it reports at most one or has
  no \<^verbatim>\<open>X-RateLimit-Remaining\<close> header.
\<close>

theorem graphql_request_after_two_429:
  assumes ok: "tm_ok tm"
    and r1: "\<forall>tr' rq. length (posts_of tr') = length (posts_of tr)
               \<longrightarrow> status_code (respond ep tr' rq) = 429"
    and r2: "\<forall>tr' rq. length (posts_of tr') = length (posts_of tr) + 1
               \<longrightarrow> status_code (respond ep tr' rq) = 429"
    and r3: "\<forall>tr' rq. length (posts_of tr') = length (posts_of tr) + 2
               \<longrightarrow> respond ep tr' rq = rs"
    and rs: "status_code rs = 200" "errors (json rs) = None" "data (json rs) = Some d"
  shows "\<exists>tm' evs. graphql_request ep tm query variables tr = (Inr d, tm', tr @ evs)
           \<and> map status_code (responses_of evs) = [429, 429, 200]
           \<and> next_token_times (if remaining_of rs \<le> 1 then 3 else 2) tm = Inr tm'"
proof -
  let ?m = "max 5 (length (tokens tm) * 3)"
  let ?q = query and ?v = variables
  have m: "0 < ?m" "Suc 0 < ?m" "Suc (Suc 0) < ?m" by simp_all
  define tm1 where "tm1 = rotated tm"
  define tm2 where "tm2 = rotated tm1"
  have ok1: "tm_ok tm1" unfolding tm1_def using ok by (rule rotated_ok)
  have ok2: "tm_ok tm2" unfolding tm2_def using ok1 by (rule rotated_ok)
  \<comment> \<open>first round\<close>
  define rs1 where "rs1 = respond ep tr (request_of tm ?q ?v)"
  have "status_code rs1 = 429" unfolding rs1_def using r1 by simp
  then have l1: "rate_limited rs1" by (rule status_429_rate_limited)
  from loop_rate_limited_round [OF m(1) ok rs1_def [symmetric] l1] obtain w1 where
    s1: "graphql_loop ep ?q ?v ?m 0 tm tr
          = graphql_loop ep ?q ?v ?m (Suc 0) tm1 (tr @ Post (request_of tm ?q ?v) rs1 # w1)"
    and w1: "posts_of w1 = []" "responses_of w1 = []"
    unfolding tm1_def by blast
  define tr1 where "tr1 = tr @ Post (request_of tm ?q ?v) rs1 # w1"
  have n1: "length (posts_of tr1) = length (posts_of tr) + 1"
    by (simp add: tr1_def posts_of_append w1)
  \<comment> \<open>second round\<close>
  define rs2 where "rs2 = respond ep tr1 (request_of tm1 ?q ?v)"
  have "status_code rs2 = 429" unfolding rs2_def using r2 n1 by simp
  then have l2: "rate_limited rs2" by (rule status_429_rate_limited)
  from loop_rate_limited_round [OF m(2) ok1 rs2_def [symmetric] l2] obtain w2 where
    s2: "graphql_loop ep ?q ?v ?m (Suc 0) tm1 tr1
          = graphql_loop ep ?q ?v ?m (Suc (Suc 0)) tm2 (tr1 @ Post (request_of tm1 ?q ?v) rs2 # w2)"
    and w2: "posts_of w2 = []" "responses_of w2 = []"
    unfolding tm2_def by blast
  define tr2 where "tr2 = tr1 @ Post (request_of tm1 ?q ?v) rs2 # w2"
  have n2: "length (posts_of tr2) = length (posts_of tr) + 2"
    by (simp add: tr2_def posts_of_append w2 n1)
  \<comment> \<open>third round\<close>
  have rs3: "respond ep tr2 (request_of tm2 ?q ?v) = rs" using r3 n2 by simp
  define tm' where "tm' = (if remaining_of rs \<le> 1 then rotated tm2 else tm2)"
  have s3: "graphql_loop ep ?q ?v ?m (Suc (Suc 0)) tm2 tr2
          = (Inr d, tm', tr2 @ [Post (request_of tm2 ?q ?v) rs])"
    using loop_success [OF m(3) ok2 rs3 rs(1,2)] rs(3) by (simp add: tm'_def)
  define evs where "evs = (Post (request_of tm ?q ?v) rs1 # w1)
      @ (Post (request_of tm1 ?q ?v) rs2 # w2) @ [Post (request_of tm2 ?q ?v) rs]"
  have tr: "tr2 @ [Post (request_of tm2 ?q ?v) rs] = tr @ evs"
    by (simp add: evs_def tr2_def tr1_def)
  have "graphql_request ep tm ?q ?v tr = (Inr d, tm', tr @ evs)"
    unfolding graphql_request_def by (simp only: s1 tr1_def [symmetric] s2 tr2_def [symmetric] s3 tr)
  moreover have "map status_code (responses_of evs) = [429, 429, 200]"
    using \<open>status_code rs1 = 429\<close> \<open>status_code rs2 = 429\<close> rs(1)
    by (simp add: evs_def responses_of_append w1 w2)
  moreover have "next_token_times (if remaining_of rs \<le> 1 then 3 else 2) tm = Inr tm'"
    using ok ok1 ok2
    by (simp add: numeral_2_eq_2 numeral_3_eq_3 next_token_ok tm'_def tm2_def tm1_def)
  ultimately show ?thesis by (intro exI [of _ tm'] exI [of _ evs]) simp
qed


theorem graphql_request_after_two_429_witness:
  "\<exists>tm' evs. graphql_request ep_429_429_ok tm_abc GRAPHQL_QUERY vars_10 []
                   = (Inr page_ab, tm', [] @ evs)
           \<and> map status_code (responses_of evs) = [429, 429, 200]
           \<and> next_token_times 2 tm_abc = Inr tm'"
proof -
  have h1: "tm_ok tm_abc" by (simp add: tm_ok_def tm_abc_def)
  have h2: "\<forall>tr' rq. length (posts_of tr') = length (posts_of [])
          \<longrightarrow> status_code (respond ep_429_429_ok tr' rq) = 429"
    and h3: "\<forall>tr' rq. length (posts_of tr') = length (posts_of []) + 1
          \<longrightarrow> status_code (respond ep_429_429_ok tr' rq) = 429"
    and h4: "\<forall>tr' rq. length (posts_of tr') = length (posts_of []) + 2
          \<longrightarrow> respond ep_429_429_ok tr' rq = r_ok_4999"
    by (simp_all add: ep_429_429_ok_def r_429_def)
  have h5: "status_code r_ok_4999 = 200" "errors (json r_ok_4999) = None"
    "data (json r_ok_4999) = Some page_ab"
    by (simp_all add: r_ok_4999_def)
  have "\<not> remaining_of r_ok_4999 \<le> 1" by (simp add: remaining_of_def r_ok_4999_def)
  with graphql_request_after_two_429 [OF h1 h2 h3 h4 h5, of GRAPHQL_QUERY vars_10]
  show ?thesis by simp
qed



text \<open>
  The claim C2 as stated fails: the third response below is a 200 without the header
  \<^verbatim>\<open>X-RateLimit-Remaining\<close>, and the call leaves the token manager where three calls of
  \<^verbatim>\<open>next_token()\<close> take it, not two.
\<close>

theorem graphql_request_after_two_429_counterexample:
  "fst (graphql_request ep_429_429_ok_no_header tm_abc GRAPHQL_QUERY vars_10 []) = Inr page_ab
   \<and> map status_code (responses_of (snd (snd
         (graphql_request ep_429_429_ok_no_header tm_abc GRAPHQL_QUERY vars_10 [])))) = [429, 429, 200]
   \<and> fst (snd (graphql_request ep_429_429_ok_no_header tm_abc GRAPHQL_QUERY vars_10 []))
       = \<lparr>tokens = [''a'', ''b'', ''c''], index = 1\<rparr>
   \<and> next_token_times 2 tm_abc = Inr \<lparr>tokens = [''a'', ''b'', ''c''], index = 0\<rparr>
   \<and> next_token_times 3 tm_abc = Inr \<lparr>tokens = [''a'', ''b'', ''c''], index = 1\<rparr>"
  by code_simp

text \<open>The first thing a call does is to post a request with the current token.\<close>

lemma loop_first_post:
  assumes lt: "a < m" and ok: "tm_ok tm"
  shows "\<exists>rest. snd (snd (graphql_loop ep q v m a tm tr))
           = tr @ Post (request_of tm q v) (respond ep tr (request_of tm q v)) # rest"
proof -
  define rs where "rs = respond ep tr (request_of tm q v)"
  then have rs: "respond ep tr (request_of tm q v) = rs" by simp
  let ?p = "Post (request_of tm q v) rs"
  have "\<exists>rest. snd (snd (graphql_loop ep q v m a tm tr)) = tr @ ?p # rest"
  proof (cases rs rule: response_cases)
    case success
    show ?thesis by (simp add: loop_success [OF lt ok rs success])
  next
    case (api_error errs)
    show ?thesis by (simp add: loop_api_error [OF lt ok rs api_error])
  next
    case limited
    from loop_rate_limited_round [OF lt ok rs limited] obtain w where
      w: "graphql_loop ep q v m a tm tr
            = graphql_loop ep q v m (Suc a) (rotated tm) (tr @ ?p # w)" by blast
    from loop_trace_grows [of ep q v m "Suc a" "rotated tm" "tr @ ?p # w"] obtain evs where
      "snd (snd (graphql_loop ep q v m (Suc a) (rotated tm) (tr @ ?p # w))) = (tr @ ?p # w) @ evs"
      by blast
    with w have "snd (snd (graphql_loop ep q v m a tm tr)) = tr @ ?p # (w @ evs)" by simp
    then show ?thesis by (rule exI)
  next
    case server_error
    let ?s = "Sleep (5 + int (Suc a) * 2)"
    from loop_trace_grows [of ep q v m "Suc a" tm "tr @ [?p, ?s]"] obtain evs where
      "snd (snd (graphql_loop ep q v m (Suc a) tm (tr @ [?p, ?s]))) = (tr @ [?p, ?s]) @ evs"
      by blast
    then have "snd (snd (graphql_loop ep q v m a tm tr)) = tr @ ?p # (?s # evs)"
      by (simp add: loop_server_error [OF lt ok rs server_error])
    then show ?thesis by (rule exI)
  next
    case http_error
    show ?thesis by (simp add: loop_http_error [OF lt ok rs http_error])
  qed
  then show ?thesis by (simp only: rs)
qed

lemma credential_of_request_of:
  "credential_of (request_of tm q v) = Some (''Bearer '' @ tokens tm ! index tm)"
  by (simp add: credential_of_def request_of_def)

lemma token_manager_index_update:
  "tokens tm0 = tokens (tm :: token_manager) \<Longrightarrow> tm0 = tm\<lparr>index := index tm0\<rparr>"
  by (cases tm, cases tm0) simp

lemma next_index_differs:
  assumes "i < n" "2 \<le> n" shows "(i + 1) mod n \<noteq> (i :: nat)"
proof (cases "i + 1 < n")
  case True
  then show ?thesis by simp
next
  case False
  with assms have "i + 1 = n" by simp
  then have "(i + 1) mod n = 0" by simp
  with \<open>i + 1 = n\<close> assms(2) show ?thesis by simp
qed

text \<open>
  C8, as amended. If a call of \<^verbatim>\<open>graphql_request\<close> returns a value and its last request
  got a response with \<^verbatim>\<open>X-RateLimit-Remaining: 1\<close>, then the call has moved the token
  manager one place on from the token of that last request: the next call starts with the
  token at index \<open>(i + 1) mod count\<close>, where \<open>i\<close> is the index of the token the last request
  carried. That token differs from the one just used when the tokens are distinct and
  there are at least two of them.
\<close>

theorem graphql_request_low_quota:
  assumes ret: "graphql_request ep tm query variables tr = (Inr d, tm', tr')"
    and last: "tr' = tr0 @ [Post rq rs]"
    and low: "X_RateLimit_Remaining rs = Some 1"
  shows "\<exists>i. i < length (tokens tm)
           \<and> credential_of rq = Some (''Bearer '' @ tokens tm ! i)
           \<and> tm' = tm\<lparr>index := (i + 1) mod length (tokens tm)\<rparr>
           \<and> (\<forall>query2 variables2. \<exists>rs2 rest.
                 snd (snd (graphql_request ep tm' query2 variables2 tr'))
                   = tr' @ Post (request_of tm' query2 variables2) rs2 # rest
                 \<and> credential_of (request_of tm' query2 variables2)
                     = Some (''Bearer '' @ tokens tm ! ((i + 1) mod length (tokens tm)))
                 \<and> (distinct (tokens tm) \<and> 2 \<le> length (tokens tm)
                      \<longrightarrow> credential_of (request_of tm' query2 variables2) \<noteq> credential_of rq))"
proof -
  let ?n = "length (tokens tm)"
  from loop_returns [OF ret [unfolded graphql_request_def]] obtain tm0 tr1 rs0 where
    *: "tm_ok tm0" "tokens tm0 = tokens tm"
       "tr' = tr1 @ [Post (request_of tm0 query variables) rs0]"
       "tm' = (if remaining_of rs0 \<le> 1 then rotated tm0 else tm0)"
    by blast
  from last *(3) have rq: "rq = request_of tm0 query variables" and "rs = rs0" by simp_all
  with low have "remaining_of rs0 \<le> 1" by (simp add: remaining_of_def)
  with *(4) have tm': "tm' = rotated tm0" by simp
  define i where "i = index tm0"
  have i: "i < ?n" using *(1,2) by (simp add: tm_ok_def i_def)
  have c: "credential_of rq = Some (''Bearer '' @ tokens tm ! i)"
    by (simp add: rq credential_of_request_of *(2) i_def)
  have "tm0 = tm\<lparr>index := i\<rparr>" unfolding i_def using *(2) by (rule token_manager_index_update)
  then have t: "tm' = tm\<lparr>index := (i + 1) mod ?n\<rparr>" by (simp add: tm' rotated_def)
  have ok': "tm_ok tm'" unfolding tm' using *(1) by (rule rotated_ok)
  have n: "\<exists>rs2 rest.
             snd (snd (graphql_request ep tm' query2 variables2 tr'))
               = tr' @ Post (request_of tm' query2 variables2) rs2 # rest
             \<and> credential_of (request_of tm' query2 variables2)
                 = Some (''Bearer '' @ tokens tm ! ((i + 1) mod ?n))
             \<and> (distinct (tokens tm) \<and> 2 \<le> ?n
                  \<longrightarrow> credential_of (request_of tm' query2 variables2) \<noteq> credential_of rq)"
    for query2 :: string and variables2
  proof -
    have "0 < max 5 (length (tokens tm') * 3)" by simp
    from loop_first_post [OF this ok', of ep query2 variables2 tr'] obtain rest where
      1: "snd (snd (graphql_request ep tm' query2 variables2 tr'))
           = tr' @ Post (request_of tm' query2 variables2)
                     (respond ep tr' (request_of tm' query2 variables2)) # rest"
      unfolding graphql_request_def by blast
    have 2: "credential_of (request_of tm' query2 variables2)
                 = Some (''Bearer '' @ tokens tm ! ((i + 1) mod ?n))"
      by (simp add: credential_of_request_of t)
    have 3: "credential_of (request_of tm' query2 variables2) \<noteq> credential_of rq"
      if "distinct (tokens tm)" "2 \<le> ?n"
    proof -
      from i have "0 < ?n" by (rule le_less_trans [OF le0])
      then have "(i + 1) mod ?n < ?n" by (rule mod_less_divisor)
      with that i next_index_differs [OF i that(2)]
      have "tokens tm ! ((i + 1) mod ?n) \<noteq> tokens tm ! i"
        by (simp add: nth_eq_iff_index_eq)
      then show ?thesis by (simp add: 2 c)
    qed
    from 1 2 3 show ?thesis by blast
  qed
  from i c t n show ?thesis by blast
qed


theorem graphql_request_low_quota_witness:
  "graphql_request ep_ok_1 tm_ab GRAPHQL_QUERY vars_10 []
     = (Inr page_ab, \<lparr>tokens = [''a'', ''b''], index = 1\<rparr>,
        [] @ [Post (request_of tm_ab GRAPHQL_QUERY vars_10) r_ok_1])
   \<and> X_RateLimit_Remaining r_ok_1 = Some 1
   \<and> (\<exists>i. i < length (tokens tm_ab)
           \<and> credential_of (request_of tm_ab GRAPHQL_QUERY vars_10)
               = Some (''Bearer '' @ tokens tm_ab ! i)
           \<and> \<lparr>tokens = [''a'', ''b''], index = 1\<rparr> = tm_ab\<lparr>index := (i + 1) mod length (tokens tm_ab)\<rparr>
           \<and> (\<forall>query2 variables2. \<exists>rs2 rest.
                 snd (snd (graphql_request ep_ok_1 \<lparr>tokens = [''a'', ''b''], index = 1\<rparr> query2 variables2
                       ([] @ [Post (request_of tm_ab GRAPHQL_QUERY vars_10) r_ok_1])))
                   = ([] @ [Post (request_of tm_ab GRAPHQL_QUERY vars_10) r_ok_1])
                       @ Post (request_of \<lparr>tokens = [''a'', ''b''], index = 1\<rparr> query2 variables2) rs2 # rest
                 \<and> credential_of (request_of \<lparr>tokens = [''a'', ''b''], index = 1\<rparr> query2 variables2)
                     = Some (''Bearer '' @ tokens tm_ab ! ((i + 1) mod length (tokens tm_ab)))
                 \<and> (distinct (tokens tm_ab) \<and> 2 \<le> length (tokens tm_ab)
                      \<longrightarrow> credential_of (request_of \<lparr>tokens = [''a'', ''b''], index = 1\<rparr> query2 variables2)
                            \<noteq> credential_of (request_of tm_ab GRAPHQL_QUERY vars_10))))"
proof -
  have h1: "graphql_request ep_ok_1 tm_ab GRAPHQL_QUERY vars_10 []
     = (Inr page_ab, \<lparr>tokens = [''a'', ''b''], index = 1\<rparr>,
        [] @ [Post (request_of tm_ab GRAPHQL_QUERY vars_10) r_ok_1])"
    by code_simp
  have h2: "[] @ [Post (request_of tm_ab GRAPHQL_QUERY vars_10) r_ok_1]
      = [] @ [Post (request_of tm_ab GRAPHQL_QUERY vars_10) r_ok_1]" ..
  have h3: "X_RateLimit_Remaining r_ok_1 = Some 1" by (simp add: r_ok_1_def)
  from h1 h3 graphql_request_low_quota [OF h1 h2 h3] show ?thesis by (intro conjI)
qed

text \<open>
  The claim C8 as stated fails for a token manager with a single token: the index moves
  from 0 to \<open>(0 + 1) mod 1 = 0\<close>, and the next call carries the same token.
\<close>

theorem graphql_request_low_quota_counterexample:
  "(case graphql_request ep_ok_1 tm_a GRAPHQL_QUERY vars_10 [] of
      (r1, tm1, tr1) \<Rightarrow>
        r1 = Inr page_ab
        \<and> map status_code (responses_of tr1) = [200]
        \<and> map X_RateLimit_Remaining (responses_of tr1) = [Some 1]
        \<and> map credential_of
              (posts_of (snd (snd (graphql_request ep_ok_1 tm1 GRAPHQL_QUERY vars_10 tr1))))
            = [Some ''Bearer a'', Some ''Bearer a''])"
  by code_simp


end
